theory Spec2Isabelle
  imports Main
begin

section \<open>Python values used by \<open>src/server.py\<close>\<close>

text \<open>
  A Python \<open>str\<close> is modelled as a \<open>string\<close>; a \<open>char\<close> stands for the code point of
  the same number, so the model covers the code points U+0000 to U+00FF. A socket object
  is modelled by its identity, a natural number: Python compares sockets by identity.
\<close>

type_synonym conn = nat

text \<open>\<open>str.isspace\<close> on one code point below U+0100.\<close>

definition py_isspace :: "char \<Rightarrow> bool" where
  "py_isspace ch = (of_char ch \<in> {9, 10, 11, 12, 13, 28, 29, 30, 31, 32, 133, 160 :: nat})"

text \<open>\<open>s.strip()\<close>: drops the whitespace at both ends.\<close>

definition py_strip :: "string \<Rightarrow> string" where
  "py_strip s = rev (dropWhile py_isspace (rev (dropWhile py_isspace s)))"

text \<open>\<open>s.split(sep)\<close> for a one-character separator: never empty, \<open>''''.split('','')\<close> is \<open>['''']\<close>.\<close>

fun py_split :: "char \<Rightarrow> string \<Rightarrow> string list" where
  "py_split sep [] = [[]]"
| "py_split sep (ch # r) =
     (if ch = sep then [] # py_split sep r
      else (case py_split sep r of
              [] \<Rightarrow> [[ch]]
            | p # ps \<Rightarrow> (ch # p) # ps))"

text \<open>\<open>sep.join(xs)\<close>.\<close>

fun py_join :: "string \<Rightarrow> string list \<Rightarrow> string" where
  "py_join sep [] = []"
| "py_join sep [a] = a"
| "py_join sep (a # b # r) = a @ sep @ py_join sep (b # r)"

text \<open>
  \<open>int(s)\<close> on a \<open>str\<close>, base ten. CPython turns non-ASCII whitespace into a blank, skips
  the blanks of the C locale at both ends (so U+001C to U+001F, which \<open>strip\<close> removes,
  are not skipped), reads an optional sign and then decimal digits, where single
  underscores may stand between two digits. \<open>None\<close> is \<open>ValueError\<close>. The limit of 4300
  digits is never met: one \<open>recv(1024)\<close> yields at most 1024 characters.
\<close>

definition int_space :: "char \<Rightarrow> bool" where
  "int_space ch = (of_char ch \<in> {9, 10, 11, 12, 13, 32, 133, 160 :: nat})"

definition is_digit :: "char \<Rightarrow> bool" where
  "is_digit ch = (48 \<le> (of_char ch :: nat) \<and> (of_char ch :: nat) \<le> 57)"

definition digit_val :: "char \<Rightarrow> nat" where
  "digit_val ch = of_char ch - 48"

fun parse_digits :: "nat \<Rightarrow> string \<Rightarrow> nat option" where
  "parse_digits acc [] = Some acc"
| "parse_digits acc [ch] =
     (if is_digit ch then Some (acc * 10 + digit_val ch) else None)"
| "parse_digits acc (ch # d # r) =
     (if is_digit ch then parse_digits (acc * 10 + digit_val ch) (d # r)
      else if ch = CHR ''_'' \<and> is_digit d then parse_digits (acc * 10 + digit_val d) r
      else None)"

fun parse_unsigned :: "string \<Rightarrow> nat option" where
  "parse_unsigned [] = None"
| "parse_unsigned (d # r) = (if is_digit d then parse_digits (digit_val d) r else None)"

definition py_int :: "string \<Rightarrow> int option" where
  "py_int s =
     (case rev (dropWhile int_space (rev (dropWhile int_space s))) of
        [] \<Rightarrow> None
      | ch # r \<Rightarrow>
          if ch = CHR ''-'' then map_option (\<lambda>n. - int n) (parse_unsigned r)
          else if ch = CHR ''+'' then map_option int (parse_unsigned r)
          else map_option int (parse_unsigned (ch # r)))"

text \<open>\<open>str(i)\<close> for an \<open>int\<close>, as the f-string of the UPDATE payload formats it.\<close>

definition digit_char :: "nat \<Rightarrow> char" where
  "digit_char d = ''0123456789'' ! d"

fun str_nat :: "nat \<Rightarrow> string" where
  "str_nat n = (if n < 10 then [digit_char n] else str_nat (n div 10) @ [digit_char (n mod 10)])"

declare str_nat.simps [simp del]

definition py_str :: "int \<Rightarrow> string" where
  "py_str i = (if i < 0 then CHR ''-'' # str_nat (nat (- i)) else str_nat (nat i))"

text \<open>
  A \<open>dict\<close> keeps its keys in insertion order, and \<open>players.values()\<close> is read in that
  order: an association list. Assigning to a present key keeps its place, assigning to a
  new key appends.
\<close>

primrec dict_set :: "'k \<Rightarrow> 'v \<Rightarrow> ('k \<times> 'v) list \<Rightarrow> ('k \<times> 'v) list" where
  "dict_set k v [] = [(k, v)]"
| "dict_set k v (e # es) = (if fst e = k then (k, v) # es else e # dict_set k v es)"

definition dict_del :: "'k \<Rightarrow> ('k \<times> 'v) list \<Rightarrow> ('k \<times> 'v) list" where
  "dict_del k es = filter (\<lambda>e. fst e \<noteq> k) es"

definition dict_get :: "('k \<times> 'v) list \<Rightarrow> 'k \<Rightarrow> 'v option" where
  "dict_get es k = map_of es k"

definition dict_values :: "('k \<times> 'v) list \<Rightarrow> 'v list" where
  "dict_values es = map snd es"

section \<open>The server state\<close>

text \<open>
  The values of \<open>self.players\<close> are the dicts \<open>{"name": .., "x": .., "y": ..}\<close>; the fields
  are called \<open>pname\<close>, \<open>px\<close> and \<open>py\<close> here.
\<close>

record player =
  pname :: string
  px :: int
  py :: int

record server =
  clients :: "conn list"
  players :: "(conn \<times> player) list"

datatype py_error = ValueError

text \<open>
  What a run does to the outside, in order: taking and releasing \<open>self.lock\<close>, a
  \<open>sendall\<close> that returned, a \<open>sendall\<close> that raised, \<open>close()\<close> and the \<open>print\<close> of the
  handler's \<open>except\<close> clause.
\<close>

datatype event =
    Acquire
  | Release
  | Sent conn string
  | SendFailed conn string
  | Close conn
  | Print conn

text \<open>
  The network during one broadcast: \<open>net c\<close> holds when \<open>c.sendall\<close> raises. A socket
  that raised is closed in the handler, so it raises again.
\<close>

type_synonym net = "conn \<Rightarrow> bool"

section \<open>\<open>Server.broadcast\<close>\<close>

text \<open>
  The loop of lines 38 to 46 over the copy \<open>self.clients[:]\<close>. \<open>list.remove\<close> raises
  \<open>ValueError\<close> for an absent element; the exception leaves the loop at once.
\<close>

fun bcast_loop ::
  "net \<Rightarrow> string \<Rightarrow> conn option \<Rightarrow> conn list \<Rightarrow> server \<Rightarrow> py_error option \<times> server \<times> event list"
where
  "bcast_loop net msg exclude_socket [] s = (None, s, [])"
| "bcast_loop net msg exclude_socket (client # rest) s =
     (if Some client \<noteq> exclude_socket then
        if net client then
          if client \<in> set (clients s) then
            (let s1 = s\<lparr>clients := remove1 client (clients s)\<rparr>;
                 s2 = (if dict_get (players s1) client \<noteq> None
                       then s1\<lparr>players := dict_del client (players s1)\<rparr> else s1)
             in case bcast_loop net msg exclude_socket rest s2 of
                  (e, s3, tr) \<Rightarrow> (e, s3, SendFailed client msg # Close client # tr))
          else (Some ValueError, s, [SendFailed client msg])
        else
          (case bcast_loop net msg exclude_socket rest s of
             (e, s3, tr) \<Rightarrow> (e, s3, Sent client msg # tr))
      else bcast_loop net msg exclude_socket rest s)"

definition broadcast ::
  "net \<Rightarrow> string \<Rightarrow> conn option \<Rightarrow> server \<Rightarrow> py_error option \<times> server \<times> event list"
where
  "broadcast net msg exclude_socket s =
     (case bcast_loop net msg exclude_socket (clients s) s of
        (e, s', tr) \<Rightarrow> (e, s', Acquire # tr @ [Release]))"

section \<open>\<open>Server.handle_client\<close>\<close>

text \<open>The f-string of line 80 and the payload of lines 79 to 82.\<close>

definition fmt_player :: "player \<Rightarrow> string" where
  "fmt_player info = pname info @ '','' @ py_str (px info) @ '','' @ py_str (py info)"

definition all_data :: "server \<Rightarrow> string" where
  "all_data s = py_join '';'' (map fmt_player (dict_values (players s)))"

text \<open>
  What \<open>client_socket.recv(1024).decode("utf-8")\<close> gives: a text (empty when the peer
  closed the stream), or an exception of \<open>recv\<close> or of \<open>decode\<close>.
\<close>

datatype recv_result = Data string | RecvError

text \<open>
  One turn of the \<open>while True\<close> loop, lines 61 to 87, run without another thread in
  between: the loop goes on, it is left by \<open>break\<close>, or an exception reaches the
  \<open>except\<close> clause of line 88. An exception of \<open>broadcast\<close> in the MOVE branch is caught
  at line 84.
\<close>

datatype flow = Continue | Break | Raised

definition loop_body :: "net \<Rightarrow> conn \<Rightarrow> recv_result \<Rightarrow> server \<Rightarrow> flow \<times> server \<times> event list" where
  "loop_body net client_socket r s =
     (case r of
        RecvError \<Rightarrow> (Raised, s, [])
      | Data data \<Rightarrow>
          if data = [] then (Break, s, [])
          else
            let parts = py_split CHR '','' data in
            if parts ! 0 = ''JOIN'' \<and> length parts = 2 then
              let name = py_strip (parts ! 1);
                  s1 = s\<lparr>players :=
                         dict_set client_socket \<lparr>pname = name, px = 0, py = 0\<rparr> (players s)\<rparr>
              in case broadcast net (''JOINED,'' @ name) None s1 of
                   (e, s2, tr) \<Rightarrow>
                     (if e = None then Continue else Raised, s2, [Acquire, Release] @ tr)
            else if parts ! 0 = ''MOVE'' \<and> length parts = 4 then
              (case py_int (parts ! 2) of
                 None \<Rightarrow> (Continue, s, [])
               | Some x \<Rightarrow>
                   (case py_int (parts ! 3) of
                      None \<Rightarrow> (Continue, s, [])
                    | Some y \<Rightarrow>
                        let s1 = s\<lparr>players :=
                               dict_set client_socket \<lparr>pname = parts ! 1, px = x, py = y\<rparr>
                                 (players s)\<rparr>
                        in case broadcast net (''UPDATE;'' @ all_data s1) None s1 of
                             (e, s2, tr) \<Rightarrow>
                               (Continue, s2, [Acquire, Release, Acquire, Release] @ tr)))
            else (Continue, s, []))"

text \<open>
  The \<open>finally\<close> clause, lines 91 to 98. The popped dict has three keys, so \<open>if player\<close>
  asks whether an entry was there.
\<close>

definition finally_block :: "net \<Rightarrow> conn \<Rightarrow> server \<Rightarrow> py_error option \<times> server \<times> event list" where
  "finally_block net client_socket s =
     (let s1 = (if client_socket \<in> set (clients s)
                then s\<lparr>clients := remove1 client_socket (clients s)\<rparr> else s);
          player = dict_get (players s1) client_socket;
          s2 = s1\<lparr>players := dict_del client_socket (players s1)\<rparr>
      in case player of
           None \<Rightarrow> (None, s2, [Acquire, Release, Close client_socket])
         | Some info \<Rightarrow>
             (case broadcast net (''LEFT,'' @ pname info) None s2 of
                (e, s3, tr) \<Rightarrow> (e, s3, [Acquire, Release, Close client_socket] @ tr)))"

text \<open>
  The whole handler on the texts its socket delivers, each with the network of the
  broadcast it may cause, and the network of the broadcast in \<open>finally\<close>. When the texts
  run out the handler waits in \<open>recv\<close>.
\<close>

datatype status = Waiting | Returned | Died py_error

fun handle_client ::
  "conn \<Rightarrow> (recv_result \<times> net) list \<Rightarrow> net \<Rightarrow> server \<Rightarrow> status \<times> server \<times> event list"
where
  "handle_client client_socket [] fin s = (Waiting, s, [])"
| "handle_client client_socket ((r, net) # later) fin s =
     (case loop_body net client_socket r s of
        (Continue, s1, tr) \<Rightarrow>
          (case handle_client client_socket later fin s1 of
             (st, s2, tr') \<Rightarrow> (st, s2, tr @ tr'))
      | (Break, s1, tr) \<Rightarrow>
          (case finally_block fin client_socket s1 of
             (e, s2, tr') \<Rightarrow>
               (case e of None \<Rightarrow> Returned | Some err \<Rightarrow> Died err, s2, tr @ tr'))
      | (Raised, s1, tr) \<Rightarrow>
          (case finally_block fin client_socket s1 of
             (e, s2, tr') \<Rightarrow>
               (case e of None \<Rightarrow> Returned | Some err \<Rightarrow> Died err, s2,
                tr @ Print client_socket # tr')))"

section \<open>\<open>Server.start\<close> and the running server\<close>

text \<open>Lines 116 and 117: the accepted socket is appended under the lock.\<close>

definition accept :: "conn \<Rightarrow> server \<Rightarrow> server" where
  "accept client_socket s = s\<lparr>clients := clients s @ [client_socket]\<rparr>"

definition init :: server where
  "init = \<lparr>clients = [], players = []\<rparr>"

text \<open>
  The server with its handler threads: the registry and the sockets whose handler has
  not returned. \<open>Accept\<close> hands a new socket object to a new thread; \<open>Recv\<close> is one
  \<open>recv\<close> of a running handler with what follows from it, up to the next \<open>recv\<close> or to
  the end of the handler, taken at the moment the handler takes the lock. A handler
  runs on whether or not its socket is still in \<open>self.clients\<close>: \<open>handle_client\<close> never
  looks, and between the return of \<open>recv\<close> (line 61) and the assignment under the lock
  (lines 67 and 76) another thread can run a whole \<open>broadcast\<close> that drops the socket.
  \<open>run\<close> executes a list of actions; a state is reachable when some list leads to it
  from the empty registry.
\<close>

datatype action = Accept conn | Recv conn recv_result net net

type_synonym config = "server \<times> conn list"

fun fire :: "action \<Rightarrow> config \<Rightarrow> config option" where
  "fire (Accept c) (s, hs) =
     (if c \<in> set (clients s) \<or> c \<in> set hs \<or> dict_get (players s) c \<noteq> None then None
      else Some (accept c s, c # hs))"
| "fire (Recv c r net fin) (s, hs) =
     (if c \<in> set hs then
        (case handle_client c [(r, net)] fin s of
           (Waiting, s', tr) \<Rightarrow> Some (s', hs)
         | (st, s', tr) \<Rightarrow> Some (s', removeAll c hs))
      else None)"

fun run :: "action list \<Rightarrow> config \<Rightarrow> config option" where
  "run [] cfg = Some cfg"
| "run (a # as) cfg = (case fire a cfg of None \<Rightarrow> None | Some cfg' \<Rightarrow> run as cfg')"

definition reachable :: "config \<Rightarrow> bool" where
  "reachable cfg = (\<exists>as. run as (init, []) = Some cfg)"

section \<open>Reading a run\<close>

text \<open>The \<open>sendall\<close> calls of a run, whether they returned or raised, and its \<open>close\<close> calls.\<close>

fun attempts :: "event list \<Rightarrow> (conn \<times> string) list" where
  "attempts [] = []"
| "attempts (Sent c m # tr) = (c, m) # attempts tr"
| "attempts (SendFailed c m # tr) = (c, m) # attempts tr"
| "attempts (e # tr) = attempts tr"

fun delivered :: "event list \<Rightarrow> (conn \<times> string) list" where
  "delivered [] = []"
| "delivered (Sent c m # tr) = (c, m) # delivered tr"
| "delivered (e # tr) = delivered tr"

fun closed :: "event list \<Rightarrow> conn list" where
  "closed [] = []"
| "closed (Close c # tr) = c # closed tr"
| "closed (e # tr) = closed tr"

text \<open>
  \<open>dropped\<close>: the broadcast tries the send to \<open>c\<close> and it fails. \<open>bcast_events\<close>: what one
  turn of the loop of \<open>broadcast\<close> does to the outside.
\<close>

definition dropped :: "net \<Rightarrow> conn option \<Rightarrow> conn \<Rightarrow> bool" where
  "dropped net exclude_socket c = (net c \<and> Some c \<noteq> exclude_socket)"

definition bcast_events :: "net \<Rightarrow> string \<Rightarrow> conn option \<Rightarrow> conn \<Rightarrow> event list" where
  "bcast_events net msg exclude_socket c =
     (if Some c = exclude_socket then []
      else if net c then [SendFailed c msg, Close c] else [Sent c msg])"

text \<open>The network in which exactly the sockets of \<open>ks\<close> raise.\<close>

definition faulty :: "conn list \<Rightarrow> net" where
  "faulty ks c = (c \<in> set ks)"

text \<open>The \<open>sendall\<close> calls of a run that are made while \<open>self.lock\<close> is held.\<close>

fun io_under_lock :: "bool \<Rightarrow> event list \<Rightarrow> (conn \<times> string) list" where
  "io_under_lock held [] = []"
| "io_under_lock held (Acquire # tr) = io_under_lock True tr"
| "io_under_lock held (Release # tr) = io_under_lock False tr"
| "io_under_lock held (Sent c m # tr) =
     (if held then (c, m) # io_under_lock held tr else io_under_lock held tr)"
| "io_under_lock held (SendFailed c m # tr) =
     (if held then (c, m) # io_under_lock held tr else io_under_lock held tr)"
| "io_under_lock held (e # tr) = io_under_lock held tr"

text \<open>The keys of \<open>self.players\<close> and the invariant of the registry.\<close>

definition keys :: "('k \<times> 'v) list \<Rightarrow> 'k set" where
  "keys es = fst ` set es"

definition registry_inv :: "server \<Rightarrow> bool" where
  "registry_inv s = (keys (players s) \<subseteq> set (clients s))"

section \<open>Facts about the Python values\<close>

lemma dict_del_absent: "dict_get es k = None \<Longrightarrow> dict_del k es = es"
  unfolding dict_get_def dict_del_def
  by (induction es) (auto split: if_splits)

lemma attempts_append: "attempts (a @ b) = attempts a @ attempts b"
  by (induction a rule: attempts.induct) simp_all

lemma delivered_append: "delivered (a @ b) = delivered a @ delivered b"
  by (induction a rule: delivered.induct) simp_all

lemma closed_append: "closed (a @ b) = closed a @ closed b"
  by (induction a rule: closed.induct) simp_all

lemma dict_get_set: "dict_get (dict_set k v es) k' = (if k' = k then Some v else dict_get es k')"
  unfolding dict_get_def by (induction es) auto

lemma dict_set_new: "dict_get es k = None \<Longrightarrow> dict_set k v es = es @ [(k, v)]"
  unfolding dict_get_def by (induction es) (auto split: if_splits)

lemma keys_dict_set: "keys (dict_set k v es) = insert k (keys es)"
  unfolding keys_def by (induction es) auto

lemma distinct_dict_set: "distinct (map fst es) \<Longrightarrow> distinct (map fst (dict_set k v es))"
proof (induction es)
  case Nil then show ?case by simp
next
  case (Cons e es)
  have "fst ` set (dict_set k v es) = insert k (fst ` set es)"
    using keys_dict_set[of k v es] by (simp add: keys_def)
  with Cons show ?case by auto
qed

lemma py_split_nonempty: "py_split sep s \<noteq> []"
  by (induction s) (auto split: list.splits)

text \<open>
  \<open>split\<close> and \<open>join\<close> are inverse to each other: a text splits into the fields \<open>ps\<close>
  exactly when it is those fields, free of the separator, joined by it. So
  \<open>py_split CHR '','' line = [''MOVE'', n, xs, ys]\<close> says that the line is
  \<open>MOVE,n,xs,ys\<close> with three fields after the tag.
\<close>

lemma py_split_no_sep: "sep \<notin> set a \<Longrightarrow> py_split sep a = [a]"
  by (induction a) auto

lemma py_split_field: "sep \<notin> set a \<Longrightarrow> py_split sep (a @ sep # b) = a # py_split sep b"
  by (induction a) auto

lemma py_split_join:
  "ps \<noteq> [] \<Longrightarrow> \<forall>p\<in>set ps. sep \<notin> set p \<Longrightarrow> py_split sep (py_join [sep] ps) = ps"
proof (induction "[sep]" ps rule: py_join.induct)
  case 1
  then show ?case by simp
next
  case (2 a)
  then show ?case by (simp add: py_split_no_sep)
next
  case (3 a b r)
  then show ?case by (simp add: py_split_field)
qed

lemma py_join_split: "py_join [sep] (py_split sep s) = s"
proof (induction s)
  case Nil
  then show ?case by simp
next
  case (Cons ch s)
  show ?case
  proof (cases "ch = sep")
    case True
    with Cons show ?thesis by (cases "py_split sep s") (auto simp add: py_split_nonempty)
  next
    case False
    obtain p ps where sp: "py_split sep s = p # ps"
      using py_split_nonempty[of sep s] by (cases "py_split sep s") auto
    with Cons False show ?thesis by (cases ps) auto
  qed
qed

lemma py_split_fields_clean: "\<forall>p\<in>set (py_split sep s). sep \<notin> set p"
  by (induction s) (auto split: list.splits)

lemma keys_dict_del: "keys (dict_del k es) = keys es - {k}"
  unfolding keys_def dict_del_def by auto

lemma keys_filter: "keys (filter P es) \<subseteq> keys es"
  unfolding keys_def by auto

lemma dict_get_None_iff: "dict_get es k = None \<longleftrightarrow> k \<notin> keys es"
  unfolding dict_get_def keys_def by (simp add: map_of_eq_None_iff)

lemma count_list_map_pair: "count_list (map (\<lambda>k. (k, m)) cs) (k, m) = count_list cs k"
  by (induction cs) auto

lemma count_list_distinct: "distinct cs \<Longrightarrow> k \<in> set cs \<Longrightarrow> count_list cs k = 1"
  by (induction cs) auto

lemma dict_get_filter_key:
  "dict_get (filter (\<lambda>e. Q (fst e)) es) k = (if Q k then dict_get es k else None)"
  unfolding dict_get_def by (induction es) auto

lemma list2_eq: "length ps = 2 \<Longrightarrow> ps = [ps ! 0, ps ! 1]"
  by (cases ps; cases "tl ps") auto

lemma list4_eq: "length ps = 4 \<Longrightarrow> ps = [ps ! 0, ps ! 1, ps ! 2, ps ! 3]"
  by (auto simp add: numeral_eq_Suc length_Suc_conv)

lemma strip_spaces_around:
  assumes "\<forall>ch\<in>set ws1. P ch" and "\<forall>ch\<in>set ws2. P ch"
  shows "rev (dropWhile P (rev (dropWhile P (ws1 @ t @ ws2)))) = rev (dropWhile P (rev (dropWhile P t)))"
proof -
  have a: "dropWhile P (ws1 @ t @ ws2) = dropWhile P (t @ ws2)"
    by (rule dropWhile_append2) (use assms(1) in auto)
  show ?thesis
  proof (cases "\<forall>ch\<in>set t. P ch")
    case True
    then have e1: "dropWhile P (t @ ws2) = []" using assms(2) by auto
    from True have e2: "dropWhile P t = []" by auto
    show ?thesis unfolding a e1 e2 by simp
  next
    case False
    then obtain ch where "ch \<in> set t" "\<not> P ch" by blast
    then have b: "dropWhile P (t @ ws2) = dropWhile P t @ ws2"
      by (rule dropWhile_append1)
    have "dropWhile P (rev ws2 @ rev (dropWhile P t)) = dropWhile P (rev (dropWhile P t))"
      by (rule dropWhile_append2) (use assms(2) in auto)
    then show ?thesis by (simp add: a b)
  qed
qed

lemma py_int_spaces_around:
  "\<forall>ch\<in>set ws1. int_space ch \<Longrightarrow> \<forall>ch\<in>set ws2. int_space ch \<Longrightarrow>
   py_int (ws1 @ t @ ws2) = py_int t"
  unfolding py_int_def by (simp only: strip_spaces_around)

lemma py_strip_shorter:
  assumes "n \<noteq> []" and "py_isspace (hd n) \<or> py_isspace (last n)"
  shows "length (py_strip n) < length n"
proof -
  have le1: "length (dropWhile py_isspace (rev (dropWhile py_isspace n))) \<le> length (dropWhile py_isspace n)"
    using length_dropWhile_le[of py_isspace "rev (dropWhile py_isspace n)"] by simp
  show ?thesis
  proof (cases "py_isspace (hd n)")
    case True
    with assms(1) have "length (dropWhile py_isspace n) < length n"
      by (cases n) (auto simp add: le_imp_less_Suc length_dropWhile_le)
    with le1 show ?thesis by (simp add: py_strip_def)
  next
    case False
    with assms have l: "py_isspace (last n)" by simp
    from False assms(1) have same: "dropWhile py_isspace n = n" by (cases n) auto
    from assms(1) obtain b l where n: "n = b @ [l]" by (cases n rule: rev_cases) auto
    have "length (dropWhile py_isspace (rev n)) = length (dropWhile py_isspace (rev b))"
      using l by (simp add: n)
    also have "\<dots> \<le> length b"
      using length_dropWhile_le[of py_isspace "rev b"] by simp
    also have "\<dots> < length n" by (simp add: n)
    finally show ?thesis by (simp add: py_strip_def same)
  qed
qed

section \<open>What \<open>broadcast\<close> computes\<close>

lemma bcast_loop_drop:
  "net c \<Longrightarrow> Some c \<noteq> ex \<Longrightarrow> c \<in> set (clients s) \<Longrightarrow>
   bcast_loop net msg ex (c # cs) s =
     (case bcast_loop net msg ex cs
             (s\<lparr>clients := remove1 c (clients s), players := dict_del c (players s)\<rparr>) of
        (e, s3, tr) \<Rightarrow> (e, s3, SendFailed c msg # Close c # tr))"
  by (cases "dict_get (players s) c") (simp_all add: Let_def dict_del_absent)

lemma bcast_loop_keep:
  "\<not> dropped net ex c \<Longrightarrow>
   bcast_loop net msg ex (c # cs) s =
     (case bcast_loop net msg ex cs s of
        (e, s3, tr) \<Rightarrow> (e, s3, bcast_events net msg ex c @ tr))"
  by (cases "bcast_loop net msg ex cs s") (auto simp add: dropped_def bcast_events_def)

text \<open>
  The loop over the rest \<open>cs\<close> of the copy, when the list holds the sockets \<open>pre\<close> that
  stayed, followed by \<open>cs\<close>: the socket that failed is the first of its kind in the
  list, so \<open>remove\<close> finds it and never raises.
\<close>

lemma bcast_loop_gen:
  "\<forall>k\<in>set pre. \<not> dropped net ex k \<Longrightarrow> clients s = pre @ cs \<Longrightarrow>
   bcast_loop net msg ex cs s =
     (None,
      s\<lparr>clients := pre @ filter (\<lambda>k. \<not> dropped net ex k) cs,
        players := filter (\<lambda>e. \<not> (fst e \<in> set cs \<and> dropped net ex (fst e))) (players s)\<rparr>,
      concat (map (bcast_events net msg ex) cs))"
proof (induction cs arbitrary: s pre)
  case Nil
  then show ?case by simp
next
  case (Cons c cs)
  show ?case
  proof (cases "dropped net ex c")
    case True
    then have notin: "c \<notin> set pre" using Cons.prems by auto
    have rm: "remove1 c (clients s) = pre @ cs"
      using notin Cons.prems(2) by (simp add: remove1_append)
    have flt: "filter (\<lambda>e. \<not> (fst e \<in> set cs \<and> dropped net ex (fst e))) (dict_del c (players s))
             = filter (\<lambda>e. \<not> (fst e \<in> set (c # cs) \<and> dropped net ex (fst e))) (players s)"
      using True unfolding dict_del_def by (auto intro: filter_cong)
    from True have nc: "net c" "Some c \<noteq> ex" by (simp_all add: dropped_def)
    have ev: "bcast_events net msg ex c = [SendFailed c msg, Close c]"
      using nc by (auto simp add: bcast_events_def)
    have mem: "c \<in> set (clients s)" using Cons.prems(2) by simp
    let ?s' = "s\<lparr>clients := remove1 c (clients s), players := dict_del c (players s)\<rparr>"
    have ih: "bcast_loop net msg ex cs ?s' =
       (None,
        ?s'\<lparr>clients := pre @ filter (\<lambda>k. \<not> dropped net ex k) cs,
          players := filter (\<lambda>e. \<not> (fst e \<in> set cs \<and> dropped net ex (fst e))) (players ?s')\<rparr>,
        concat (map (bcast_events net msg ex) cs))"
      by (rule Cons.IH[OF Cons.prems(1)]) (simp add: rm)
    show ?thesis
      unfolding bcast_loop_drop[of net c ex s msg cs, OF nc mem] ih
      using True flt by (simp add: ev del: set_simps)
  next
    case False
    then have pre': "\<forall>k\<in>set (pre @ [c]). \<not> dropped net ex k" using Cons.prems by auto
    have flt: "filter (\<lambda>e. \<not> (fst e \<in> set cs \<and> dropped net ex (fst e))) (players s)
             = filter (\<lambda>e. \<not> (fst e \<in> set (c # cs) \<and> dropped net ex (fst e))) (players s)"
      using False by (auto intro: filter_cong)
    have ih: "bcast_loop net msg ex cs s =
       (None,
        s\<lparr>clients := (pre @ [c]) @ filter (\<lambda>k. \<not> dropped net ex k) cs,
          players := filter (\<lambda>e. \<not> (fst e \<in> set cs \<and> dropped net ex (fst e))) (players s)\<rparr>,
        concat (map (bcast_events net msg ex) cs))"
      by (rule Cons.IH[OF pre']) (simp add: Cons.prems(2))
    show ?thesis
      unfolding bcast_loop_keep[of net ex c msg cs s, OF False] ih
      using False flt by (simp del: set_simps)
  qed
qed

lemma broadcast_result:
  "broadcast net msg ex s =
     (None,
      s\<lparr>clients := filter (\<lambda>k. \<not> dropped net ex k) (clients s),
        players := filter (\<lambda>e. \<not> (fst e \<in> set (clients s) \<and> dropped net ex (fst e))) (players s)\<rparr>,
      Acquire # concat (map (bcast_events net msg ex) (clients s)) @ [Release])"
  using bcast_loop_gen[of "[]" net ex s "clients s" msg]
  by (simp add: broadcast_def)

lemma attempts_bcast:
  "attempts (concat (map (bcast_events net msg ex) cs)) =
     map (\<lambda>k. (k, msg)) (filter (\<lambda>k. Some k \<noteq> ex) cs)"
  by (induction cs) (simp_all add: bcast_events_def attempts_append)

lemma delivered_bcast:
  "delivered (concat (map (bcast_events net msg ex) cs)) =
     map (\<lambda>k. (k, msg)) (filter (\<lambda>k. Some k \<noteq> ex \<and> \<not> net k) cs)"
  by (induction cs) (simp_all add: bcast_events_def delivered_append)

lemma closed_bcast:
  "closed (concat (map (bcast_events net msg ex) cs)) = filter (dropped net ex) cs"
  by (induction cs) (auto simp add: bcast_events_def closed_append dropped_def)

section \<open>What the handler computes\<close>

lemma loop_body_join:
  assumes "py_split CHR '','' data = [''JOIN'', n]"
  shows "loop_body net c (Data data) s =
     (Continue,
      s\<lparr>clients := filter (\<lambda>k. \<not> net k) (clients s),
        players := filter (\<lambda>e. \<not> (fst e \<in> set (clients s) \<and> net (fst e)))
                     (dict_set c \<lparr>pname = py_strip n, px = 0, py = 0\<rparr> (players s))\<rparr>,
      Acquire # Release # Acquire #
        concat (map (bcast_events net (''JOINED,'' @ py_strip n) None) (clients s)) @ [Release])"
proof -
  have ne: "data \<noteq> []" using assms by auto
  show ?thesis
    using ne by (simp add: loop_body_def assms broadcast_result dropped_def Let_def)
qed

lemma loop_body_move:
  assumes "py_split CHR '','' data = [''MOVE'', n, xs, ys]"
    and "py_int xs = Some x" and "py_int ys = Some y"
  shows "loop_body net c (Data data) s =
     (Continue,
      s\<lparr>clients := filter (\<lambda>k. \<not> net k) (clients s),
        players := filter (\<lambda>e. \<not> (fst e \<in> set (clients s) \<and> net (fst e)))
                     (dict_set c \<lparr>pname = n, px = x, py = y\<rparr> (players s))\<rparr>,
      Acquire # Release # Acquire # Release # Acquire #
        concat (map (bcast_events net
           (''UPDATE;'' @ py_join '';'' (map fmt_player
               (dict_values (dict_set c \<lparr>pname = n, px = x, py = y\<rparr> (players s))))) None)
           (clients s)) @ [Release])"
proof -
  have ne: "data \<noteq> []" using assms by auto
  show ?thesis
    using ne by (simp add: loop_body_def assms broadcast_result dropped_def all_data_def Let_def)
qed


lemma loop_body_cases:
  assumes "loop_body net c r s = (fl, s', tr)"
  shows "(s' = s \<and> tr = []) \<or>
         (fl = Continue \<and> (\<exists>p. s' =
            s\<lparr>clients := filter (\<lambda>k. \<not> net k) (clients s),
              players := filter (\<lambda>e. \<not> (fst e \<in> set (clients s) \<and> net (fst e)))
                           (dict_set c p (players s))\<rparr>))"
  using assms
  by (auto simp add: loop_body_def Let_def broadcast_result dropped_def
           split: recv_result.splits if_splits option.splits)

lemma finally_block_result:
  "finally_block fin c s =
     (None,
      s\<lparr>clients := filter (\<lambda>k. \<not> (dict_get (players s) c \<noteq> None \<and> fin k)) (remove1 c (clients s)),
        players := filter (\<lambda>e. \<not> (dict_get (players s) c \<noteq> None \<and>
                                  fst e \<in> set (remove1 c (clients s)) \<and> fin (fst e)))
                     (dict_del c (players s))\<rparr>,
      [Acquire, Release, Close c] @
        (case dict_get (players s) c of
           None \<Rightarrow> []
         | Some info \<Rightarrow>
             Acquire # concat (map (bcast_events fin (''LEFT,'' @ pname info) None)
                                (remove1 c (clients s))) @ [Release]))"
proof -
  have rm: "c \<notin> set (clients s) \<Longrightarrow> remove1 c (clients s) = clients s"
    by (simp add: remove1_idem)
  show ?thesis
    by (cases "dict_get (players s) c")
       (auto simp add: finally_block_def Let_def broadcast_result dropped_def rm)
qed

lemma handle_client_one:
  "handle_client c [(r, net)] fin s =
     (case loop_body net c r s of
        (Continue, s1, tr) \<Rightarrow> (Waiting, s1, tr)
      | (Break, s1, tr) \<Rightarrow>
          (Returned, fst (snd (finally_block fin c s1)), tr @ snd (snd (finally_block fin c s1)))
      | (Raised, s1, tr) \<Rightarrow>
          (Returned, fst (snd (finally_block fin c s1)),
           tr @ Print c # snd (snd (finally_block fin c s1))))"
  by (simp add: finally_block_result split: prod.splits flow.splits)

lemma loop_body_frame:
  assumes "loop_body net c r s = (fl, s', tr)"
  shows "set (clients s') \<subseteq> set (clients s) \<and> keys (players s') \<subseteq> insert c (keys (players s))
         \<and> (distinct (clients s) \<longrightarrow> distinct (clients s'))
         \<and> (distinct (map fst (players s)) \<longrightarrow> distinct (map fst (players s')))"
proof -
  from loop_body_cases[OF assms] show ?thesis
  proof
    assume "s' = s \<and> tr = []"
    then show ?thesis by auto
  next
    assume "fl = Continue \<and> (\<exists>p. s' =
            s\<lparr>clients := filter (\<lambda>k. \<not> net k) (clients s),
              players := filter (\<lambda>e. \<not> (fst e \<in> set (clients s) \<and> net (fst e)))
                           (dict_set c p (players s))\<rparr>)"
    then obtain p where s': "s' =
            s\<lparr>clients := filter (\<lambda>k. \<not> net k) (clients s),
              players := filter (\<lambda>e. \<not> (fst e \<in> set (clients s) \<and> net (fst e)))
                           (dict_set c p (players s))\<rparr>" by blast
    have k: "keys (players s') \<subseteq> insert c (keys (players s))"
      using keys_filter[of _ "dict_set c p (players s)"] by (simp add: s' keys_dict_set)
    have d: "distinct (map fst (players s)) \<longrightarrow> distinct (map fst (players s'))"
      by (simp add: s' distinct_map_filter distinct_dict_set)
    show ?thesis using k d by (auto simp add: s')
  qed
qed

lemma finally_block_frame:
  assumes "finally_block fin c s = (e, s', tr)"
  shows "set (clients s') \<subseteq> set (remove1 c (clients s)) \<and> keys (players s') \<subseteq> keys (players s) - {c}
         \<and> (distinct (clients s) \<longrightarrow> distinct (clients s'))
         \<and> (distinct (map fst (players s)) \<longrightarrow> distinct (map fst (players s')))"
proof -
  have s': "s' = s\<lparr>clients := filter (\<lambda>k. \<not> (dict_get (players s) c \<noteq> None \<and> fin k)) (remove1 c (clients s)),
        players := filter (\<lambda>e. \<not> (dict_get (players s) c \<noteq> None \<and>
                                  fst e \<in> set (remove1 c (clients s)) \<and> fin (fst e)))
                     (dict_del c (players s))\<rparr>"
    using assms unfolding finally_block_result by simp
  have k: "keys (players s') \<subseteq> keys (players s) - {c}"
    using keys_filter[of _ "dict_del c (players s)"] by (simp add: s' keys_dict_del)
  have d: "distinct (map fst (players s)) \<longrightarrow> distinct (map fst (players s'))"
    by (simp add: s' distinct_map_filter dict_del_def)
  show ?thesis using k d by (auto simp add: s')
qed

lemma dropped_None: "dropped net None = net"
  by (auto simp add: dropped_def fun_eq_iff)


lemma loop_body_stops:
  assumes "loop_body net c r s = (fl, s1, tr1)" and "fl \<noteq> Continue"
  shows "s1 = s \<and> tr1 = []"
  using loop_body_cases[OF assms(1)] assms(2) by blast

lemma handle_client_stops:
  assumes "loop_body net c r s = (fl, s1, tr1)" and "fl \<noteq> Continue"
  shows "handle_client c ((r, net) # later) fin s =
     (Returned, fst (snd (finally_block fin c s)),
      (if fl = Raised then [Print c] else []) @ snd (snd (finally_block fin c s)))"
proof -
  from loop_body_stops[OF assms] have e: "loop_body net c r s = (fl, s, [])"
    using assms(1) by simp
  show ?thesis
    using assms(2) by (cases fl) (simp_all add: e finally_block_result)
qed

lemma io_under_lock_bcast:
  "io_under_lock True (concat (map (bcast_events net msg ex) cs) @ rest) =
     map (\<lambda>k. (k, msg)) (filter (\<lambda>k. Some k \<noteq> ex) cs) @ io_under_lock True rest"
  by (induction cs) (simp_all add: bcast_events_def)

lemma bcast_events_no_lock:
  "Acquire \<notin> set (concat (map (bcast_events net msg ex) cs)) \<and>
   Release \<notin> set (concat (map (bcast_events net msg ex) cs))"
  by (induction cs) (simp_all add: bcast_events_def)

lemma dict_set_idem: "dict_set k v (dict_set k v es) = dict_set k v es"
  by (induction es) auto

lemma distinct_keys_one: "distinct (map fst es) \<Longrightarrow> length (filter (\<lambda>e. fst e = k) es) \<le> 1"
proof (induction es)
  case Nil
  then show ?case by simp
next
  case (Cons e es)
  show ?case
  proof (cases "fst e = k")
    case True
    with Cons.prems have "k \<notin> fst ` set es" by auto
    then have "filter (\<lambda>e. fst e = k) es = []" by (auto simp add: filter_empty_conv)
    with True show ?thesis by simp
  next
    case False
    with Cons show ?thesis by simp
  qed
qed

lemma distinct_keys_entry:
  "distinct (map fst es) \<Longrightarrow> e \<in> set es \<Longrightarrow> dict_get es (fst e) = Some (snd e)"
  unfolding dict_get_def by (cases e) simp

lemma move_state:
  assumes "py_split CHR '','' line = [''MOVE'', n, xs, ys]"
    and "py_int xs = Some x" and "py_int ys = Some y"
    and "loop_body net c (Data line) s = (fl, s', tr)"
  shows "clients s' = filter (\<lambda>k. \<not> net k) (clients s)"
    and "players s' = filter (\<lambda>e. \<not> (fst e \<in> set (clients s) \<and> net (fst e)))
                        (dict_set c \<lparr>pname = n, px = x, py = y\<rparr> (players s))"
    and "attempts tr = map (\<lambda>k. (k, ''UPDATE;'' @ py_join '';'' (map fmt_player
               (dict_values (dict_set c \<lparr>pname = n, px = x, py = y\<rparr> (players s)))))) (clients s)"
  using assms(4) unfolding loop_body_move[OF assms(1,2,3)]
  by (auto simp add: attempts_append attempts_bcast)

section \<open>The states the server can reach\<close>

text \<open>
  In every state the server reaches, no socket is twice in \<open>clients\<close>, and every socket
  in \<open>clients\<close> or \<open>players\<close> has a handler that still runs.
\<close>

lemma fire_keeps_wf:
  assumes f: "fire a (s, hs) = Some (s', hs')"
    and wf: "distinct (clients s)" "distinct (map fst (players s))"
            "set (clients s) \<subseteq> set hs" "keys (players s) \<subseteq> set hs"
  shows "distinct (clients s') \<and> distinct (map fst (players s')) \<and>
         set (clients s') \<subseteq> set hs' \<and> keys (players s') \<subseteq> set hs'"
proof (cases a)
  case (Accept c)
  with f wf show ?thesis
    by (auto simp add: accept_def split: if_splits)
next
  case (Recv c r net fin)
  with f have c: "c \<in> set hs" by (auto split: if_splits)
  obtain fl s1 tr where lb: "loop_body net c r s = (fl, s1, tr)"
    by (cases "loop_body net c r s") auto
  note fr = loop_body_frame[OF lb]
  show ?thesis
  proof (cases fl)
    case Continue
    with f Recv c lb have "s' = s1" "hs' = hs"
      by (auto simp add: handle_client_one split: option.splits)
    with fr wf c show ?thesis by auto
  next
    case Break
    obtain e s2 tr2 where fb: "finally_block fin c s1 = (e, s2, tr2)"
      by (cases "finally_block fin c s1") auto
    from f Recv c lb Break fb have eq: "s' = s2" "hs' = removeAll c hs"
      by (auto simp add: handle_client_one split: option.splits)
    note ff = finally_block_frame[OF fb]
    have "distinct (clients s1)" using fr wf by simp
    then have "set (remove1 c (clients s1)) = set (clients s1) - {c}" by simp
    with ff fr wf show ?thesis unfolding eq by auto
  next
    case Raised
    obtain e s2 tr2 where fb: "finally_block fin c s1 = (e, s2, tr2)"
      by (cases "finally_block fin c s1") auto
    from f Recv c lb Raised fb have eq: "s' = s2" "hs' = removeAll c hs"
      by (auto simp add: handle_client_one split: option.splits)
    note ff = finally_block_frame[OF fb]
    have "distinct (clients s1)" using fr wf by simp
    then have "set (remove1 c (clients s1)) = set (clients s1) - {c}" by simp
    with ff fr wf show ?thesis unfolding eq by auto
  qed
qed

lemma run_keeps_wf:
  "run as (s, hs) = Some (s', hs') \<Longrightarrow>
   distinct (clients s) \<and> distinct (map fst (players s)) \<and>
     set (clients s) \<subseteq> set hs \<and> keys (players s) \<subseteq> set hs \<Longrightarrow>
   distinct (clients s') \<and> distinct (map fst (players s')) \<and>
     set (clients s') \<subseteq> set hs' \<and> keys (players s') \<subseteq> set hs'"
proof (induction as arbitrary: s hs)
  case Nil
  then show ?case by simp
next
  case (Cons a as)
  from Cons.prems(1) obtain s1 hs1 where f: "fire a (s, hs) = Some (s1, hs1)"
    and r: "run as (s1, hs1) = Some (s', hs')"
    by (cases "fire a (s, hs)") auto
  from fire_keeps_wf[OF f] Cons.prems(2) have
    "distinct (clients s1) \<and> distinct (map fst (players s1)) \<and>
     set (clients s1) \<subseteq> set hs1 \<and> keys (players s1) \<subseteq> set hs1" by blast
  from Cons.IH[OF r this] show ?case .
qed

lemma reachable_wf:
  assumes "reachable (s, hs)"
  shows "distinct (clients s) \<and> distinct (map fst (players s)) \<and>
         set (clients s) \<subseteq> set hs \<and> keys (players s) \<subseteq> set hs"
proof -
  from assms obtain as where "run as (init, []) = Some (s, hs)"
    by (auto simp add: reachable_def)
  from run_keeps_wf[OF this] show ?thesis by (simp add: init_def keys_def)
qed

lemma accept_keeps_inv: "registry_inv s \<Longrightarrow> registry_inv (accept c s)"
  by (auto simp add: registry_inv_def accept_def)

lemma broadcast_keeps_inv: "registry_inv s \<Longrightarrow> registry_inv (fst (snd (broadcast net msg ex s)))"
  unfolding broadcast_result by (auto simp add: registry_inv_def keys_def)

lemma finally_keeps_inv: "registry_inv s \<Longrightarrow> registry_inv (fst (snd (finally_block net c s)))"
proof -
  assume inv: "registry_inv s"
  have k: "\<And>P. keys (filter P (dict_del c (players s))) \<subseteq> keys (players s) - {c}"
    using keys_filter[of _ "dict_del c (players s)"] by (simp add: keys_dict_del)
  have m: "\<And>k. k \<noteq> c \<Longrightarrow> k \<in> set (clients s) \<Longrightarrow> k \<in> set (remove1 c (clients s))"
    by simp
  show ?thesis
    unfolding finally_block_result using inv
    by (auto simp add: registry_inv_def keys_def dict_del_def)
qed

lemma loop_body_keeps_inv:
  assumes "registry_inv s" and "c \<in> set (clients s)"
  shows "registry_inv (fst (snd (loop_body net c r s)))"
proof -
  obtain fl s' tr where lb: "loop_body net c r s = (fl, s', tr)"
    by (cases "loop_body net c r s") auto
  from loop_body_cases[OF lb] show ?thesis
  proof
    assume "s' = s \<and> tr = []"
    then show ?thesis using assms(1) by (simp add: lb)
  next
    assume "fl = Continue \<and> (\<exists>p. s' =
            s\<lparr>clients := filter (\<lambda>k. \<not> net k) (clients s),
              players := filter (\<lambda>e. \<not> (fst e \<in> set (clients s) \<and> net (fst e)))
                           (dict_set c p (players s))\<rparr>)"
    then obtain p where s': "s' =
            s\<lparr>clients := filter (\<lambda>k. \<not> net k) (clients s),
              players := filter (\<lambda>e. \<not> (fst e \<in> set (clients s) \<and> net (fst e)))
                           (dict_set c p (players s))\<rparr>" by blast
    have "keys (dict_set c p (players s)) \<subseteq> set (clients s)"
      using assms by (simp add: keys_dict_set registry_inv_def)
    then show ?thesis
      by (auto simp add: lb s' registry_inv_def keys_def)
  qed
qed

section \<open>The specified properties\<close>

text \<open>
  C1. A text \<open>MOVE,<name>,<x>,<y>\<close>, that is one that \<open>split\<close> cuts into the tag and
  exactly three fields, the last two of which \<open>int\<close> accepts, received from any
  connection \<open>c\<close> in any state: the handler stores \<open>{name, x, y}\<close> under \<open>c\<close> (at the end
  of the table when \<open>c\<close> had no entry, whether or not \<open>c\<close> ever sent JOIN), then calls
  \<open>sendall\<close> once for every connection of \<open>clients\<close>, none excluded, with \<open>UPDATE;\<close>
  followed by the entries of the updated table, each formatted \<open>name,x,y\<close>, joined by
  \<open>;\<close>. The loop goes on. Afterwards the connections whose send failed are gone, with
  their entries.
\<close>

theorem move_sets_entry_and_broadcasts_update:
  assumes "py_split CHR '','' line = [''MOVE'', n, xs, ys]"
    and "py_int xs = Some x" and "py_int ys = Some y"
  shows "case loop_body net c (Data line) s of
     (fl, s', tr) \<Rightarrow>
       let table = dict_set c \<lparr>pname = n, px = x, py = y\<rparr> (players s);
           msg = ''UPDATE;'' @ py_join '';'' (map fmt_player (dict_values table))
       in fl = Continue \<and>
          dict_get table c = Some \<lparr>pname = n, px = x, py = y\<rparr> \<and>
          (dict_get (players s) c = None \<longrightarrow>
             table = players s @ [(c, \<lparr>pname = n, px = x, py = y\<rparr>)]) \<and>
          attempts tr = map (\<lambda>k. (k, msg)) (clients s) \<and>
          delivered tr = map (\<lambda>k. (k, msg)) (filter (\<lambda>k. \<not> net k) (clients s)) \<and>
          clients s' = filter (\<lambda>k. \<not> net k) (clients s) \<and>
          players s' = filter (\<lambda>e. \<not> (fst e \<in> set (clients s) \<and> net (fst e))) table"
  unfolding loop_body_move[OF assms]
  by (simp add: Let_def dict_get_set dict_set_new attempts_append delivered_append
        attempts_bcast delivered_bcast)

theorem move_sets_entry_and_broadcasts_update_witness:
  "case loop_body (faulty [3]) 1 (Data ''MOVE,Bob,10,-20'')
          \<lparr>clients = [1, 2, 3],
           players = [(2, \<lparr>pname = ''Al'', px = 0, py = 0\<rparr>), (3, \<lparr>pname = ''Cy'', px = 4, py = 5\<rparr>)]\<rparr> of
     (fl, s', tr) \<Rightarrow>
       fl = Continue \<and>
       attempts tr = [(1, ''UPDATE;Al,0,0;Cy,4,5;Bob,10,-20''), (2, ''UPDATE;Al,0,0;Cy,4,5;Bob,10,-20''),
                      (3, ''UPDATE;Al,0,0;Cy,4,5;Bob,10,-20'')] \<and>
       delivered tr = [(1, ''UPDATE;Al,0,0;Cy,4,5;Bob,10,-20''), (2, ''UPDATE;Al,0,0;Cy,4,5;Bob,10,-20'')] \<and>
       clients s' = [1, 2] \<and>
       players s' = [(2, \<lparr>pname = ''Al'', px = 0, py = 0\<rparr>), (1, \<lparr>pname = ''Bob'', px = 10, py = - 20\<rparr>)]"
proof -
  have h1: "py_split CHR '','' ''MOVE,Bob,10,-20'' = [''MOVE'', ''Bob'', ''10'', ''-20'']"
    by simp
  have h2: "py_int ''10'' = Some 10"
    by (simp add: py_int_def int_space_def is_digit_def digit_val_def)
  have h3: "py_int ''-20'' = Some (- 20)"
    by (simp add: py_int_def int_space_def is_digit_def digit_val_def)
  show ?thesis
    using move_sets_entry_and_broadcasts_update[OF h1 h2 h3, where net = "faulty [3]" and c = 1
      and s = "\<lparr>clients = [1, 2, 3],
           players = [(2, \<lparr>pname = ''Al'', px = 0, py = 0\<rparr>), (3, \<lparr>pname = ''Cy'', px = 4, py = 5\<rparr>)]\<rparr>"]
    by (simp add: faulty_def Let_def dict_values_def fmt_player_def py_str_def str_nat.simps
          digit_char_def split: prod.splits)
qed

text \<open>
  C2. A text \<open>JOIN,<name>\<close>, that is one that \<open>split\<close> cuts into the tag and exactly one
  field, received from any connection \<open>c\<close> in a state the server can reach: the handler
  stores the stripped name with position (0, 0) under \<open>c\<close>, then calls \<open>sendall\<close> with
  \<open>JOINED,<stripped name>\<close> exactly once for every connection of \<open>clients\<close>, the sender
  among them when it is registered; the message is delivered wherever the send does
  not fail.
\<close>

theorem join_sets_entry_and_broadcasts_joined:
  assumes "py_split CHR '','' line = [''JOIN'', n]" and "reachable (s, hs)"
  shows "case loop_body net c (Data line) s of
     (fl, s', tr) \<Rightarrow>
       let name = py_strip n;
           table = dict_set c \<lparr>pname = name, px = 0, py = 0\<rparr> (players s);
           msg = ''JOINED,'' @ name
       in fl = Continue \<and>
          dict_get table c = Some \<lparr>pname = name, px = 0, py = 0\<rparr> \<and>
          attempts tr = map (\<lambda>k. (k, msg)) (clients s) \<and>
          (\<forall>k\<in>set (clients s). count_list (attempts tr) (k, msg) = 1) \<and>
          delivered tr = map (\<lambda>k. (k, msg)) (filter (\<lambda>k. \<not> net k) (clients s)) \<and>
          clients s' = filter (\<lambda>k. \<not> net k) (clients s) \<and>
          players s' = filter (\<lambda>e. \<not> (fst e \<in> set (clients s) \<and> net (fst e))) table"
proof -
  have d: "distinct (clients s)" using reachable_wf[OF assms(2)] by simp
  show ?thesis
    unfolding loop_body_join[OF assms(1)]
    by (simp add: Let_def dict_get_set attempts_append delivered_append
          attempts_bcast delivered_bcast count_list_map_pair count_list_distinct[OF d])
qed

theorem join_sets_entry_and_broadcasts_joined_witness:
  "case loop_body (faulty []) 2 (Data ''JOIN, Alice\<newline>'') \<lparr>clients = [1, 2], players = []\<rparr> of
     (fl, s', tr) \<Rightarrow>
       fl = Continue \<and>
       attempts tr = [(1, ''JOINED,Alice''), (2, ''JOINED,Alice'')] \<and>
       count_list (attempts tr) (2, ''JOINED,Alice'') = 1 \<and>
       delivered tr = [(1, ''JOINED,Alice''), (2, ''JOINED,Alice'')] \<and>
       clients s' = [1, 2] \<and>
       players s' = [(2, \<lparr>pname = ''Alice'', px = 0, py = 0\<rparr>)]"
proof -
  have h1: "py_split CHR '','' ''JOIN, Alice\<newline>'' = [''JOIN'', '' Alice\<newline>'']"
    by simp
  have "run [Accept 1, Accept 2] (init, []) = Some (\<lparr>clients = [1, 2], players = []\<rparr>, [2, 1])"
    by (simp add: init_def accept_def dict_get_def)
  then have h2: "reachable (\<lparr>clients = [1, 2], players = []\<rparr>, [2, 1])"
    unfolding reachable_def by blast
  have st: "py_strip '' Alice\<newline>'' = ''Alice''"
    by (simp add: py_strip_def py_isspace_def)
  show ?thesis
    using join_sets_entry_and_broadcasts_joined[OF h1 h2, where net = "faulty []" and c = 2]
    by (simp add: faulty_def Let_def st split: prod.splits)
qed

text \<open>
  C3. \<open>broadcast(message, exclude)\<close> returns without an exception in every state and
  every network. It calls \<open>sendall\<close> with the message once for each registered
  connection other than \<open>exclude\<close>, in the order of the list and whatever happened to
  the earlier ones; the calls that return are those to the connections that do not
  fail. Each connection whose send fails is closed, is gone from \<open>clients\<close> afterwards
  and has no entry in \<open>players\<close>; nothing else changes.
\<close>

theorem broadcast_never_raises_and_drops_failed_peers:
  "case broadcast net msg ex s of
     (e, s', tr) \<Rightarrow>
       e = None \<and>
       attempts tr = map (\<lambda>k. (k, msg)) (filter (\<lambda>k. Some k \<noteq> ex) (clients s)) \<and>
       delivered tr = map (\<lambda>k. (k, msg)) (filter (\<lambda>k. Some k \<noteq> ex \<and> \<not> net k) (clients s)) \<and>
       closed tr = filter (\<lambda>k. Some k \<noteq> ex \<and> net k) (clients s) \<and>
       clients s' = filter (\<lambda>k. \<not> (Some k \<noteq> ex \<and> net k)) (clients s) \<and>
       players s' =
         filter (\<lambda>e. \<not> (fst e \<in> set (clients s) \<and> Some (fst e) \<noteq> ex \<and> net (fst e))) (players s)"
proof -
  have d: "dropped net ex = (\<lambda>k. Some k \<noteq> ex \<and> net k)"
    by (auto simp add: dropped_def fun_eq_iff)
  show ?thesis
    unfolding broadcast_result
    by (simp add: attempts_append delivered_append closed_append
          attempts_bcast delivered_bcast closed_bcast d)
qed

theorem broadcast_never_raises_and_drops_failed_peers_witness:
  "case broadcast (faulty [2]) ''hi'' (Some 4)
          \<lparr>clients = [1, 2, 3, 4],
           players = [(2, \<lparr>pname = ''B'', px = 0, py = 0\<rparr>), (1, \<lparr>pname = ''A'', px = 1, py = 2\<rparr>)]\<rparr> of
     (e, s', tr) \<Rightarrow>
       e = None \<and>
       attempts tr = [(1, ''hi''), (2, ''hi''), (3, ''hi'')] \<and>
       delivered tr = [(1, ''hi''), (3, ''hi'')] \<and>
       closed tr = [2] \<and>
       clients s' = [1, 3, 4] \<and>
       players s' = [(1, \<lparr>pname = ''A'', px = 1, py = 2\<rparr>)]"
  using broadcast_never_raises_and_drops_failed_peers
    [where net = "faulty [2]" and msg = "''hi''" and ex = "Some 4" and s =
        "\<lparr>clients = [1, 2, 3, 4],
          players = [(2, \<lparr>pname = ''B'', px = 0, py = 0\<rparr>), (1, \<lparr>pname = ''A'', px = 1, py = 2\<rparr>)]\<rparr>"]
  by (simp add: faulty_def)

text \<open>
  C5. A text that is not empty and is not a well-formed command, that is neither a JOIN
  with exactly one field nor a MOVE with exactly three fields whose last two \<open>int\<close>
  accepts (another first token, another number of fields, an \<open>x\<close> or a \<open>y\<close> that does
  not parse, \<open>y\<close> alone included): the turn of the loop changes neither \<open>clients\<close> nor
  \<open>players\<close>, sends nothing to anyone, closes nothing, and the handler goes on with the
  texts that follow as if the malformed one had not been received.
\<close>

theorem malformed_line_is_ignored:
  assumes "data \<noteq> []"
    and "\<forall>n. py_split CHR '','' data \<noteq> [''JOIN'', n]"
    and "\<forall>n xs ys x y. \<not> (py_split CHR '','' data = [''MOVE'', n, xs, ys] \<and>
                            py_int xs = Some x \<and> py_int ys = Some y)"
  shows "loop_body net c (Data data) s = (Continue, s, []) \<and>
         handle_client c ((Data data, net) # later) fin s = handle_client c later fin s"
proof -
  let ?parts = "py_split CHR '','' data"
  have j: "\<not> (?parts ! 0 = ''JOIN'' \<and> length ?parts = 2)"
  proof
    assume a: "?parts ! 0 = ''JOIN'' \<and> length ?parts = 2"
    then have "?parts = [''JOIN'', ?parts ! 1]" using list2_eq[of ?parts] by simp
    with assms(2) show False by blast
  qed
  have m: "?parts ! 0 = ''MOVE'' \<and> length ?parts = 4 \<Longrightarrow>
           py_int (?parts ! 2) = None \<or> py_int (?parts ! 3) = None"
  proof (rule ccontr)
    assume a: "?parts ! 0 = ''MOVE'' \<and> length ?parts = 4"
      and b: "\<not> (py_int (?parts ! 2) = None \<or> py_int (?parts ! 3) = None)"
    from a have "?parts = [''MOVE'', ?parts ! 1, ?parts ! 2, ?parts ! 3]"
      using list4_eq[of ?parts] by simp
    moreover from b obtain x y where "py_int (?parts ! 2) = Some x" "py_int (?parts ! 3) = Some y"
      by auto
    ultimately show False using assms(3) by blast
  qed
  have lb: "loop_body net c (Data data) s = (Continue, s, [])"
    using assms(1) j m
    by (auto simp add: loop_body_def Let_def split: option.splits)
  then show ?thesis by simp
qed


theorem malformed_line_is_ignored_witness:
  "loop_body (faulty []) 1 (Data ''MOVE,Bob,1,z'')
      \<lparr>clients = [1], players = [(1, \<lparr>pname = ''Bob'', px = 10, py = 20\<rparr>)]\<rparr> =
     (Continue, \<lparr>clients = [1], players = [(1, \<lparr>pname = ''Bob'', px = 10, py = 20\<rparr>)]\<rparr>, []) \<and>
   handle_client 1 [(Data ''MOVE,Bob,1,z'', faulty []), (Data ''MOVE,Bob,1,2'', faulty [])] (faulty [])
      \<lparr>clients = [1], players = [(1, \<lparr>pname = ''Bob'', px = 10, py = 20\<rparr>)]\<rparr> =
   handle_client 1 [(Data ''MOVE,Bob,1,2'', faulty [])] (faulty [])
      \<lparr>clients = [1], players = [(1, \<lparr>pname = ''Bob'', px = 10, py = 20\<rparr>)]\<rparr>"
proof -
  have sp: "py_split CHR '','' ''MOVE,Bob,1,z'' = [''MOVE'', ''Bob'', ''1'', ''z'']"
    by simp
  have z: "py_int ''z'' = None"
    by (simp add: py_int_def int_space_def is_digit_def)
  have h1: "''MOVE,Bob,1,z'' \<noteq> []" by simp
  have h2: "\<forall>n. py_split CHR '','' ''MOVE,Bob,1,z'' \<noteq> [''JOIN'', n]"
    unfolding sp by simp
  have h3: "\<forall>n xs ys x y. \<not> (py_split CHR '','' ''MOVE,Bob,1,z'' = [''MOVE'', n, xs, ys] \<and>
                            py_int xs = Some x \<and> py_int ys = Some y)"
    unfolding sp using z by auto
  show ?thesis
    by (rule malformed_line_is_ignored[OF h1 h2 h3])
qed

text \<open>
  C10. JOIN stores the stripped name and MOVE stores its name field as received (stated
  for a sender whose own send does not fail, since a failed send deletes the entry
  again); the two differ for every name that begins or ends with whitespace. \<open>int\<close>
  gives the same value with blanks, tabs or newlines around the text, and
  \<open>MOVE,Bob,1,2\<close> followed by a newline stores \<open>y = 2\<close>.
\<close>

theorem join_strips_name_move_keeps_it:
  "(py_split CHR '','' jline = [''JOIN'', n] \<and> \<not> (c \<in> set (clients s) \<and> net c) \<longrightarrow>
      dict_get (players (fst (snd (loop_body net c (Data jline) s)))) c =
        Some \<lparr>pname = py_strip n, px = 0, py = 0\<rparr>) \<and>
   (py_split CHR '','' mline = [''MOVE'', n, xs, ys] \<and> py_int xs = Some x \<and> py_int ys = Some y \<and>
      \<not> (c \<in> set (clients s) \<and> net c) \<longrightarrow>
      dict_get (players (fst (snd (loop_body net c (Data mline) s)))) c =
        Some \<lparr>pname = n, px = x, py = y\<rparr>) \<and>
   (n \<noteq> [] \<and> (py_isspace (hd n) \<or> py_isspace (last n)) \<longrightarrow> py_strip n \<noteq> n) \<and>
   ((\<forall>ch\<in>set lead. int_space ch) \<and> (\<forall>ch\<in>set trail. int_space ch) \<longrightarrow>
      py_int (lead @ t @ trail) = py_int t) \<and>
   (\<not> (c \<in> set (clients s) \<and> net c) \<longrightarrow>
      dict_get (players (fst (snd (loop_body net c (Data ''MOVE,Bob,1,2\<newline>'') s)))) c =
        Some \<lparr>pname = ''Bob'', px = 1, py = 2\<rparr>)"
proof -
  have flt: "\<And>tbl. c \<in> set (clients s) \<longrightarrow> \<not> net c \<Longrightarrow>
      dict_get (filter (\<lambda>e. fst e \<in> set (clients s) \<longrightarrow> \<not> net (fst e)) tbl) c = dict_get tbl c"
    using dict_get_filter_key[of "\<lambda>k. k \<in> set (clients s) \<longrightarrow> \<not> net k" _ c] by simp
  have j: "py_split CHR '','' jline = [''JOIN'', n] \<Longrightarrow> \<not> (c \<in> set (clients s) \<and> net c) \<Longrightarrow>
      dict_get (players (fst (snd (loop_body net c (Data jline) s)))) c =
        Some \<lparr>pname = py_strip n, px = 0, py = 0\<rparr>"
    by (simp add: loop_body_join flt dict_get_set)
  have m: "\<And>line n xs ys x y. py_split CHR '','' line = [''MOVE'', n, xs, ys] \<Longrightarrow>
      py_int xs = Some x \<Longrightarrow> py_int ys = Some y \<Longrightarrow> \<not> (c \<in> set (clients s) \<and> net c) \<Longrightarrow>
      dict_get (players (fst (snd (loop_body net c (Data line) s)))) c =
        Some \<lparr>pname = n, px = x, py = y\<rparr>"
    by (simp add: loop_body_move flt dict_get_set)
  have st: "n \<noteq> [] \<Longrightarrow> py_isspace (hd n) \<or> py_isspace (last n) \<Longrightarrow> py_strip n \<noteq> n"
    using py_strip_shorter[of n] by auto
  have sp: "py_split CHR '','' ''MOVE,Bob,1,2\<newline>'' = [''MOVE'', ''Bob'', ''1'', ''2\<newline>'']"
    by simp
  have i1: "py_int ''1'' = Some 1"
    by (simp add: py_int_def int_space_def is_digit_def digit_val_def)
  have i2: "py_int ''2\<newline>'' = Some 2"
    by (simp add: py_int_def int_space_def is_digit_def digit_val_def)
  show ?thesis
    using j m[of mline n xs ys x y] st py_int_spaces_around[of lead trail t] m[OF sp i1 i2]
    by blast
qed

theorem join_strips_name_move_keeps_it_witness:
  "dict_get (players (fst (snd (loop_body (faulty []) 1 (Data ''JOIN, Bob '') \<lparr>clients = [1], players = []\<rparr>)))) 1 =
        Some \<lparr>pname = ''Bob'', px = 0, py = 0\<rparr> \<and>
   dict_get (players (fst (snd (loop_body (faulty []) 1 (Data ''MOVE, Bob ,1,2'') \<lparr>clients = [1], players = []\<rparr>)))) 1 =
        Some \<lparr>pname = '' Bob '', px = 1, py = 2\<rparr> \<and>
   py_strip '' Bob '' \<noteq> '' Bob '' \<and>
   py_int (''  '' @ ''-7'' @ ''\<newline>'') = py_int ''-7'' \<and>
   dict_get (players (fst (snd (loop_body (faulty []) 1 (Data ''MOVE,Bob,1,2\<newline>'') \<lparr>clients = [1], players = []\<rparr>)))) 1 =
        Some \<lparr>pname = ''Bob'', px = 1, py = 2\<rparr>"
proof -
  have sj: "py_split CHR '','' ''JOIN, Bob '' = [''JOIN'', '' Bob '']" by simp
  have sm: "py_split CHR '','' ''MOVE, Bob ,1,2'' = [''MOVE'', '' Bob '', ''1'', ''2'']" by simp
  have i1: "py_int ''1'' = Some 1"
    by (simp add: py_int_def int_space_def is_digit_def digit_val_def)
  have i2: "py_int ''2'' = Some 2"
    by (simp add: py_int_def int_space_def is_digit_def digit_val_def)
  have st: "py_strip '' Bob '' = ''Bob''"
    by (simp add: py_strip_def py_isspace_def)
  have sp: "py_isspace (hd '' Bob '')" by (simp add: py_isspace_def)
  have wa: "\<forall>ch\<in>set ''  ''. int_space ch" by (simp add: int_space_def)
  have wb: "\<forall>ch\<in>set ''\<newline>''. int_space ch" by (simp add: int_space_def)
  have nf: "\<not> (1 \<in> set (clients \<lparr>clients = [1], players = []\<rparr>) \<and> faulty [] 1)"
    by (simp add: faulty_def)
  show ?thesis
    using join_strips_name_move_keeps_it[where jline = "''JOIN, Bob ''" and n = "'' Bob ''"
        and mline = "''MOVE, Bob ,1,2''" and xs = "''1''" and ys = "''2''" and x = 1 and y = 2
        and c = 1 and s = "\<lparr>clients = [1], players = []\<rparr>" and net = "faulty []"
        and lead = "''  ''" and trail = "''\<newline>''" and t = "''-7''"]
      sj sm i1 i2 sp wa wb nf
    unfolding st by simp
qed

text \<open>
  C4. A turn of the read loop that does not continue (the zero-length read, an
  exception of \<open>recv\<close> or \<open>decode\<close>, or an exception raised in the body) changes nothing
  itself, and the handler then returns after the \<open>finally\<close> clause: the connection is
  taken out of \<open>clients\<close> (nothing happens there when it is absent) and closed, its
  entry is popped, and \<open>LEFT,<name>\<close> is sent to the connections that remain exactly when
  an entry was popped. Afterwards the connection has no entry, so the table from which
  every later UPDATE payload is built holds only entries of other connections.
\<close>

theorem disconnect_removes_closes_and_announces:
  assumes "loop_body net c r s = (fl, s1, tr1)" and "fl \<noteq> Continue"
  shows "loop_body net c (Data []) s = (Break, s, []) \<and>
         loop_body net c RecvError s = (Raised, s, []) \<and>
         s1 = s \<and>
         (case handle_client c ((r, net) # later) fin s of
            (st, s', tr) \<Rightarrow>
              st = Returned \<and>
              clients s' =
                filter (\<lambda>k. \<not> (dict_get (players s) c \<noteq> None \<and> fin k)) (remove1 c (clients s)) \<and>
              players s' =
                filter (\<lambda>e. \<not> (dict_get (players s) c \<noteq> None \<and>
                               fst e \<in> set (remove1 c (clients s)) \<and> fin (fst e)))
                  (dict_del c (players s)) \<and>
              (c \<notin> set (clients s) \<and> dict_get (players s) c = None \<longrightarrow> s' = s) \<and>
              (distinct (clients s) \<longrightarrow> c \<notin> set (clients s')) \<and>
              dict_get (players s') c = None \<and>
              attempts tr =
                (case dict_get (players s) c of
                   None \<Rightarrow> []
                 | Some info \<Rightarrow> map (\<lambda>k. (k, ''LEFT,'' @ pname info)) (remove1 c (clients s))) \<and>
              closed tr =
                c # filter (\<lambda>k. dict_get (players s) c \<noteq> None \<and> fin k) (remove1 c (clients s)))"
proof -
  have a: "loop_body net c (Data []) s = (Break, s, [])" by (simp add: loop_body_def)
  have b: "loop_body net c RecvError s = (Raised, s, [])" by (simp add: loop_body_def)
  have c1: "s1 = s" using loop_body_stops[OF assms] by simp
  have none: "dict_get (filter (\<lambda>e. \<not> (dict_get (players s) c \<noteq> None \<and>
                               fst e \<in> set (remove1 c (clients s)) \<and> fin (fst e)))
                  (dict_del c (players s))) c = None"
    unfolding dict_get_None_iff using keys_filter[of _ "dict_del c (players s)"]
    by (auto simp add: keys_dict_del)
  have noop: "c \<notin> set (clients s) \<Longrightarrow> dict_get (players s) c = None \<Longrightarrow>
     s\<lparr>clients := filter (\<lambda>k. \<not> (dict_get (players s) c \<noteq> None \<and> fin k)) (remove1 c (clients s)),
       players := filter (\<lambda>e. \<not> (dict_get (players s) c \<noteq> None \<and>
                               fst e \<in> set (remove1 c (clients s)) \<and> fin (fst e)))
                  (dict_del c (players s))\<rparr> = s"
    by (simp add: remove1_idem dict_del_absent)
  have gone: "distinct (clients s) \<Longrightarrow>
     c \<notin> set (filter (\<lambda>k. \<not> (dict_get (players s) c \<noteq> None \<and> fin k)) (remove1 c (clients s)))"
    by simp
  have att: "attempts ((if fl = Raised then [Print c] else []) @ [Acquire, Release, Close c] @
        (case dict_get (players s) c of
           None \<Rightarrow> []
         | Some info \<Rightarrow>
             Acquire # concat (map (bcast_events fin (''LEFT,'' @ pname info) None)
                                (remove1 c (clients s))) @ [Release])) =
      (case dict_get (players s) c of
                   None \<Rightarrow> []
                 | Some info \<Rightarrow> map (\<lambda>k. (k, ''LEFT,'' @ pname info)) (remove1 c (clients s)))"
    by (simp add: attempts_append attempts_bcast split: option.splits)
  have cl: "closed ((if fl = Raised then [Print c] else []) @ [Acquire, Release, Close c] @
        (case dict_get (players s) c of
           None \<Rightarrow> []
         | Some info \<Rightarrow>
             Acquire # concat (map (bcast_events fin (''LEFT,'' @ pname info) None)
                                (remove1 c (clients s))) @ [Release])) =
      c # filter (\<lambda>k. dict_get (players s) c \<noteq> None \<and> fin k) (remove1 c (clients s))"
    by (auto simp add: closed_append closed_bcast dropped_None split: option.splits)
  show ?thesis
    unfolding handle_client_stops[OF assms] finally_block_result
    using a b c1 none noop gone att cl by simp
qed

theorem disconnect_removes_closes_and_announces_witness:
  "case handle_client 2 [(Data [], faulty [])] (faulty [3])
          \<lparr>clients = [1, 2, 3],
           players = [(1, \<lparr>pname = ''Al'', px = 1, py = 1\<rparr>), (2, \<lparr>pname = ''Bob'', px = 5, py = 6\<rparr>),
                      (3, \<lparr>pname = ''Cy'', px = 0, py = 0\<rparr>)]\<rparr> of
     (st, s', tr) \<Rightarrow>
       st = Returned \<and>
       clients s' = [1] \<and>
       players s' = [(1, \<lparr>pname = ''Al'', px = 1, py = 1\<rparr>)] \<and>
       attempts tr = [(1, ''LEFT,Bob''), (3, ''LEFT,Bob'')] \<and>
       closed tr = [2, 3]"
proof -
  have h: "loop_body (faulty []) 2 (Data [])
          \<lparr>clients = [1, 2, 3],
           players = [(1, \<lparr>pname = ''Al'', px = 1, py = 1\<rparr>), (2, \<lparr>pname = ''Bob'', px = 5, py = 6\<rparr>),
                      (3, \<lparr>pname = ''Cy'', px = 0, py = 0\<rparr>)]\<rparr> =
        (Break, \<lparr>clients = [1, 2, 3],
           players = [(1, \<lparr>pname = ''Al'', px = 1, py = 1\<rparr>), (2, \<lparr>pname = ''Bob'', px = 5, py = 6\<rparr>),
                      (3, \<lparr>pname = ''Cy'', px = 0, py = 0\<rparr>)]\<rparr>, [])"
    by (simp add: loop_body_def)
  have n: "Break \<noteq> Continue" by simp
  show ?thesis
    using disconnect_removes_closes_and_announces[OF h n, where later = "[]" and fin = "faulty [3]"]
    by (simp add: faulty_def dict_get_def dict_del_def split: prod.splits)
qed

text \<open>
  C6. "Every key of \<open>players\<close> is in \<open>clients\<close>" is kept by the append on accept, by the
  removal of failed peers in \<open>broadcast\<close> and by the \<open>finally\<close> clause, and by a turn of
  the loop for a connection that is in \<open>clients\<close>. The handler does not look whether its
  connection is still there: when the broadcast of another handler has dropped it, a
  JOIN or MOVE received on it writes an entry whose key is not in \<open>clients\<close>, so the
  invariant fails in a state the server reaches. In every reachable state each key of
  \<open>players\<close> and each member of \<open>clients\<close> is the socket of a handler that has not
  returned, and the invariant holds whenever all those sockets are in \<open>clients\<close>.
\<close>

theorem registry_invariant_kept_by_registered_senders:
  "(registry_inv s \<longrightarrow> registry_inv (accept c s)) \<and>
   (registry_inv s \<longrightarrow> registry_inv (fst (snd (broadcast net msg ex s)))) \<and>
   (registry_inv s \<longrightarrow> registry_inv (fst (snd (finally_block net c s)))) \<and>
   (registry_inv s \<and> c \<in> set (clients s) \<longrightarrow> registry_inv (fst (snd (loop_body net c r s)))) \<and>
   (reachable (s, hs) \<longrightarrow> keys (players s) \<subseteq> set hs \<and> set (clients s) \<subseteq> set hs) \<and>
   (reachable (s, hs) \<and> set hs \<subseteq> set (clients s) \<longrightarrow> registry_inv s)"
  using accept_keeps_inv[of s c] broadcast_keeps_inv[of s net msg ex] finally_keeps_inv[of s net c]
    loop_body_keeps_inv[of s c net r] reachable_wf[of s hs]
  by (auto simp add: registry_inv_def)

theorem registry_invariant_kept_by_registered_senders_witness:
  "registry_inv (accept 3 \<lparr>clients = [1, 2], players = [(1, \<lparr>pname = ''A'', px = 0, py = 0\<rparr>)]\<rparr>) \<and>
   registry_inv (fst (snd (broadcast (faulty [1]) ''hi'' None
      \<lparr>clients = [1, 2], players = [(1, \<lparr>pname = ''A'', px = 0, py = 0\<rparr>)]\<rparr>))) \<and>
   registry_inv (fst (snd (finally_block (faulty []) 1
      \<lparr>clients = [1, 2], players = [(1, \<lparr>pname = ''A'', px = 0, py = 0\<rparr>)]\<rparr>))) \<and>
   registry_inv (fst (snd (loop_body (faulty []) 2 (Data ''JOIN,B'')
      \<lparr>clients = [1, 2], players = [(1, \<lparr>pname = ''A'', px = 0, py = 0\<rparr>)]\<rparr>))) \<and>
   keys (players \<lparr>clients = [1, 2], players = [(1, \<lparr>pname = ''A'', px = 0, py = 0\<rparr>)]\<rparr>) \<subseteq> set [2, 1] \<and>
   registry_inv \<lparr>clients = [1, 2], players = [(1, \<lparr>pname = ''A'', px = 0, py = 0\<rparr>)]\<rparr>"
proof -
  let ?s = "\<lparr>clients = [1, 2], players = [(1, \<lparr>pname = ''A'', px = 0, py = 0\<rparr>)]\<rparr>"
  have "run [Accept 1, Accept 2, Recv 1 (Data ''JOIN,A'') (faulty []) (faulty [])] (init, []) =
          Some (?s, [2, 1])"
    by (simp add: init_def accept_def dict_get_def loop_body_def Let_def broadcast_result
          dropped_def faulty_def py_strip_def py_isspace_def)
  then have reach: "reachable (?s, [2, 1])" unfolding reachable_def by blast
  have sub: "set [2, 1] \<subseteq> set (clients ?s)" by simp
  have mem: "2 \<in> set (clients ?s)" by simp
  have inv: "registry_inv ?s"
    using registry_invariant_kept_by_registered_senders[where s = ?s and hs = "[2, 1]"] reach sub
    by blast
  show ?thesis
    using registry_invariant_kept_by_registered_senders[where s = ?s and hs = "[2, 1]" and c = 3]
      registry_invariant_kept_by_registered_senders[where s = ?s and hs = "[2, 1]" and c = 1
        and net = "faulty []"]
      registry_invariant_kept_by_registered_senders[where s = ?s and hs = "[2, 1]" and c = 2
        and net = "faulty []" and r = "Data ''JOIN,B''"]
      registry_invariant_kept_by_registered_senders[where s = ?s and hs = "[2, 1]"
        and net = "faulty [1]" and msg = "''hi''" and ex = None]
      reach inv mem
    by blast
qed

text \<open>
  The run in which the invariant fails: two connections are accepted, the JOIN of the
  second is broadcast and the send to the first fails, so the first is dropped; then
  the handler of the first, which still runs, handles a JOIN.
\<close>

theorem unregistered_sender_breaks_invariant_counterexample:
  "run [Accept 1, Accept 2, Recv 2 (Data ''JOIN,B'') (faulty [1]) (faulty []),
        Recv 1 (Data ''JOIN,A'') (faulty []) (faulty [])] (init, []) =
     Some (\<lparr>clients = [2],
            players = [(2, \<lparr>pname = ''B'', px = 0, py = 0\<rparr>), (1, \<lparr>pname = ''A'', px = 0, py = 0\<rparr>)]\<rparr>,
           [2, 1]) \<and>
   reachable (\<lparr>clients = [2],
            players = [(2, \<lparr>pname = ''B'', px = 0, py = 0\<rparr>), (1, \<lparr>pname = ''A'', px = 0, py = 0\<rparr>)]\<rparr>,
           [2, 1]) \<and>
   \<not> registry_inv \<lparr>clients = [2],
            players = [(2, \<lparr>pname = ''B'', px = 0, py = 0\<rparr>), (1, \<lparr>pname = ''A'', px = 0, py = 0\<rparr>)]\<rparr>"
proof -
  have r: "run [Accept 1, Accept 2, Recv 2 (Data ''JOIN,B'') (faulty [1]) (faulty []),
        Recv 1 (Data ''JOIN,A'') (faulty []) (faulty [])] (init, []) =
     Some (\<lparr>clients = [2],
            players = [(2, \<lparr>pname = ''B'', px = 0, py = 0\<rparr>), (1, \<lparr>pname = ''A'', px = 0, py = 0\<rparr>)]\<rparr>,
           [2, 1])"
    by (simp add: init_def accept_def dict_get_def loop_body_def Let_def broadcast_result
          dropped_def faulty_def py_strip_def py_isspace_def)
  then have "reachable (\<lparr>clients = [2],
            players = [(2, \<lparr>pname = ''B'', px = 0, py = 0\<rparr>), (1, \<lparr>pname = ''A'', px = 0, py = 0\<rparr>)]\<rparr>,
           [2, 1])"
    unfolding reachable_def by blast
  then show ?thesis using r by (simp add: registry_inv_def keys_def)
qed

text \<open>
  C7. That no \<open>sendall\<close> happens while \<open>self.lock\<close> is held does not hold: the \<open>with\<close>
  block of \<open>broadcast\<close> encloses the loop. What holds: \<open>broadcast\<close> takes the lock
  once, before the first send, releases it once, after the last, and makes every
  \<open>sendall\<close> in between, one for each connection, other than \<open>exclude\<close>, of the copy
  taken when the loop starts.
\<close>

theorem broadcast_holds_lock_for_every_send:
  "case broadcast net msg ex s of
     (e, s', tr) \<Rightarrow>
       (\<exists>mid. tr = Acquire # mid @ [Release] \<and> Acquire \<notin> set mid \<and> Release \<notin> set mid) \<and>
       attempts tr = map (\<lambda>k. (k, msg)) (filter (\<lambda>k. Some k \<noteq> ex) (clients s)) \<and>
       io_under_lock False tr = attempts tr"
proof -
  have mid: "\<exists>mid. Acquire # concat (map (bcast_events net msg ex) (clients s)) @ [Release] =
               Acquire # mid @ [Release] \<and> Acquire \<notin> set mid \<and> Release \<notin> set mid"
    using bcast_events_no_lock[of net msg ex "clients s"] by blast
  have io: "io_under_lock False (Acquire # concat (map (bcast_events net msg ex) (clients s)) @ [Release]) =
            map (\<lambda>k. (k, msg)) (filter (\<lambda>k. Some k \<noteq> ex) (clients s))"
    by (simp add: io_under_lock_bcast)
  have at: "attempts (Acquire # concat (map (bcast_events net msg ex) (clients s)) @ [Release]) =
            map (\<lambda>k. (k, msg)) (filter (\<lambda>k. Some k \<noteq> ex) (clients s))"
    by (simp add: attempts_append attempts_bcast)
  show ?thesis
    unfolding broadcast_result using mid io at by simp
qed

theorem broadcast_holds_lock_for_every_send_witness:
  "case broadcast (faulty [2]) ''hi'' None \<lparr>clients = [1, 2], players = []\<rparr> of
     (e, s', tr) \<Rightarrow>
       (\<exists>mid. tr = Acquire # mid @ [Release] \<and> Acquire \<notin> set mid \<and> Release \<notin> set mid) \<and>
       attempts tr = [(1, ''hi''), (2, ''hi'')] \<and>
       io_under_lock False tr = [(1, ''hi''), (2, ''hi'')]"
  using broadcast_holds_lock_for_every_send[where net = "faulty [2]" and msg = "''hi''" and ex = None
      and s = "\<lparr>clients = [1, 2], players = []\<rparr>"]
  by (auto split: prod.splits)

text \<open>
  With one connection registered, the one \<open>sendall\<close> of a broadcast is made while the
  lock is held.
\<close>

theorem broadcast_sends_under_lock_counterexample:
  "io_under_lock False (snd (snd (broadcast (faulty []) ''hi'' None \<lparr>clients = [1], players = []\<rparr>))) =
     [(1, ''hi'')] \<and>
   io_under_lock False (snd (snd (broadcast (faulty []) ''hi'' None \<lparr>clients = [1], players = []\<rparr>))) \<noteq> []"
  by (simp add: broadcast_result bcast_events_def faulty_def)

text \<open>
  C8. Two MOVE commands from one connection \<open>c\<close>, whatever the network does: afterwards
  the table holds at most one entry for \<open>c\<close>, every entry it holds for \<open>c\<close> is that of
  the second command, never that of the first, and it does hold that entry unless the
  send of the second broadcast to \<open>c\<close> itself failed. When the second command equals the
  first and no send fails in either broadcast, the second leaves \<open>players\<close> and
  \<open>clients\<close> as the first left them and sends the same UPDATE text again to every
  connection. Without these provisos the property fails: a peer dropped by the first
  broadcast is missing from the second payload, and a sender whose own send fails
  keeps no entry at all.
\<close>

theorem move_overwrites_and_resend_repeats:
  assumes la: "py_split CHR '','' linea = [''MOVE'', na, xsa, ysa]"
              "py_int xsa = Some xa" "py_int ysa = Some ya"
    and lb: "py_split CHR '','' lineb = [''MOVE'', nb, xsb, ysb]"
            "py_int xsb = Some xb" "py_int ysb = Some yb"
    and d: "distinct (map fst (players s))"
    and ra: "loop_body neta c (Data linea) s = (fa, sa, tra)"
    and rb: "loop_body netb c (Data lineb) sa = (fb, sb, trb)"
  shows "(\<forall>e\<in>set (players sb). fst e = c \<longrightarrow> snd e = \<lparr>pname = nb, px = xb, py = yb\<rparr>) \<and>
         length (filter (\<lambda>e. fst e = c) (players sb)) \<le> 1 \<and>
         (\<not> (c \<in> set (clients sa) \<and> netb c) \<longrightarrow>
            dict_get (players sb) c = Some \<lparr>pname = nb, px = xb, py = yb\<rparr>) \<and>
         (lineb = linea \<and> (\<forall>k\<in>set (clients s). \<not> neta k \<and> \<not> netb k) \<longrightarrow>
            players sb = players sa \<and> clients sb = clients sa \<and>
            attempts trb = attempts tra \<and>
            attempts trb = map (\<lambda>k. (k, ''UPDATE;'' @ all_data sa)) (clients s))"
proof -
  let ?pa = "\<lparr>pname = na, px = xa, py = ya\<rparr>"
  let ?pb = "\<lparr>pname = nb, px = xb, py = yb\<rparr>"
  note A = move_state[OF la ra]
  note B = move_state[OF lb rb]
  have da: "distinct (map fst (players sa))"
    unfolding A(2) using d by (simp add: distinct_map_filter distinct_dict_set)
  have dset: "distinct (map fst (dict_set c ?pb (players sa)))"
    using da by (rule distinct_dict_set)
  have db: "distinct (map fst (players sb))"
    unfolding B(2) using dset by (simp add: distinct_map_filter)
  have one: "\<forall>e\<in>set (players sb). fst e = c \<longrightarrow> snd e = ?pb"
  proof (intro ballI impI)
    fix e assume e: "e \<in> set (players sb)" and k: "fst e = c"
    from e have "e \<in> set (dict_set c ?pb (players sa))" unfolding B(2) by simp
    from distinct_keys_entry[OF dset this] k show "snd e = ?pb"
      by (simp add: dict_get_set)
  qed
  have two: "length (filter (\<lambda>e. fst e = c) (players sb)) \<le> 1"
    using db by (rule distinct_keys_one)
  have three: "\<not> (c \<in> set (clients sa) \<and> netb c) \<Longrightarrow> dict_get (players sb) c = Some ?pb"
    unfolding B(2)
    by (simp add: dict_get_set
          dict_get_filter_key[of "\<lambda>k. k \<in> set (clients sa) \<longrightarrow> \<not> netb k"])
  have four: "lineb = linea \<Longrightarrow> \<forall>k\<in>set (clients s). \<not> neta k \<and> \<not> netb k \<Longrightarrow>
      players sb = players sa \<and> clients sb = clients sa \<and> attempts trb = attempts tra \<and>
      attempts trb = map (\<lambda>k. (k, ''UPDATE;'' @ all_data sa)) (clients s)"
  proof -
    assume same: "lineb = linea" and ok: "\<forall>k\<in>set (clients s). \<not> neta k \<and> \<not> netb k"
    from same la lb have p: "nb = na" "xb = xa" "yb = ya" by auto
    have ca: "clients sa = clients s" unfolding A(1) using ok by (auto simp add: filter_id_conv)
    have pa: "players sa = dict_set c ?pa (players s)"
      unfolding A(2) using ok by (auto simp add: filter_id_conv)
    have cb: "clients sb = clients s" unfolding B(1) ca using ok by (auto simp add: filter_id_conv)
    have pb: "players sb = dict_set c ?pa (players s)"
      unfolding B(2) ca pa p using ok by (auto simp add: filter_id_conv dict_set_idem)
    show ?thesis
      unfolding A(3) B(3) ca cb pa pb p all_data_def
      by (simp add: dict_set_idem pa)
  qed
  show ?thesis using one two three four by blast
qed

theorem move_overwrites_and_resend_repeats_witness:
  "length (filter (\<lambda>e. fst e = 1) (players (fst (snd (loop_body (faulty []) 1 (Data ''MOVE,Bob,15,-5'')
        (fst (snd (loop_body (faulty []) 1 (Data ''MOVE,Bob,10,20'')
           \<lparr>clients = [1, 2], players = [(1, \<lparr>pname = ''Bob'', px = 0, py = 0\<rparr>)]\<rparr>)))))))) \<le> 1 \<and>
   dict_get (players (fst (snd (loop_body (faulty []) 1 (Data ''MOVE,Bob,15,-5'')
        (fst (snd (loop_body (faulty []) 1 (Data ''MOVE,Bob,10,20'')
           \<lparr>clients = [1, 2], players = [(1, \<lparr>pname = ''Bob'', px = 0, py = 0\<rparr>)]\<rparr>))))))) 1 =
     Some \<lparr>pname = ''Bob'', px = 15, py = - 5\<rparr> \<and>
   players (fst (snd (loop_body (faulty []) 1 (Data ''MOVE,Bob,10,20'')
        (fst (snd (loop_body (faulty []) 1 (Data ''MOVE,Bob,10,20'')
           \<lparr>clients = [1, 2], players = [(1, \<lparr>pname = ''Bob'', px = 0, py = 0\<rparr>)]\<rparr>)))))) =
     players (fst (snd (loop_body (faulty []) 1 (Data ''MOVE,Bob,10,20'')
           \<lparr>clients = [1, 2], players = [(1, \<lparr>pname = ''Bob'', px = 0, py = 0\<rparr>)]\<rparr>))) \<and>
   attempts (snd (snd (loop_body (faulty []) 1 (Data ''MOVE,Bob,10,20'')
        (fst (snd (loop_body (faulty []) 1 (Data ''MOVE,Bob,10,20'')
           \<lparr>clients = [1, 2], players = [(1, \<lparr>pname = ''Bob'', px = 0, py = 0\<rparr>)]\<rparr>)))))) =
     [(1, ''UPDATE;Bob,10,20''), (2, ''UPDATE;Bob,10,20'')]"
proof -
  let ?s = "\<lparr>clients = [1, 2], players = [(1, \<lparr>pname = ''Bob'', px = 0, py = 0\<rparr>)]\<rparr>"
  let ?sa = "\<lparr>clients = [1, 2], players = [(1, \<lparr>pname = ''Bob'', px = 10, py = 20\<rparr>)]\<rparr>"
  have la: "py_split CHR '','' ''MOVE,Bob,10,20'' = [''MOVE'', ''Bob'', ''10'', ''20'']" by simp
  have lb: "py_split CHR '','' ''MOVE,Bob,15,-5'' = [''MOVE'', ''Bob'', ''15'', ''-5'']" by simp
  have ia: "py_int ''10'' = Some 10" "py_int ''20'' = Some 20"
    by (simp_all add: py_int_def int_space_def is_digit_def digit_val_def)
  have ib: "py_int ''15'' = Some 15" "py_int ''-5'' = Some (- 5)"
    by (simp_all add: py_int_def int_space_def is_digit_def digit_val_def)
  have d: "distinct (map fst (players ?s))" by simp
  have ra: "loop_body (faulty []) 1 (Data ''MOVE,Bob,10,20'') ?s =
     (Continue, ?sa,
      [Acquire, Release, Acquire, Release, Acquire,
       Sent 1 ''UPDATE;Bob,10,20'', Sent 2 ''UPDATE;Bob,10,20'', Release])"
    by (simp add: loop_body_def Let_def broadcast_result dropped_def bcast_events_def faulty_def
        all_data_def dict_values_def fmt_player_def py_str_def str_nat.simps digit_char_def
        py_int_def int_space_def is_digit_def digit_val_def)
  obtain fb sb trb where rb: "loop_body (faulty []) 1 (Data ''MOVE,Bob,15,-5'') ?sa = (fb, sb, trb)"
    by (cases "loop_body (faulty []) 1 (Data ''MOVE,Bob,15,-5'') ?sa") auto
  obtain fc sc trc where rc: "loop_body (faulty []) 1 (Data ''MOVE,Bob,10,20'') ?sa = (fc, sc, trc)"
    by (cases "loop_body (faulty []) 1 (Data ''MOVE,Bob,10,20'') ?sa") auto
  have ok: "\<forall>k\<in>set (clients ?s). \<not> faulty [] k \<and> \<not> faulty [] k" by (simp add: faulty_def)
  have nf: "\<not> (1 \<in> set (clients ?sa) \<and> faulty [] 1)" by (simp add: faulty_def)
  have ad: "all_data ?sa = ''Bob,10,20''"
    by (simp add: all_data_def dict_values_def fmt_player_def py_str_def str_nat.simps digit_char_def)
  show ?thesis
    unfolding ra fst_conv snd_conv rb rc
    using move_overwrites_and_resend_repeats[OF la ia lb ib d ra rb]
      move_overwrites_and_resend_repeats[OF la ia la ia d ra rc]
      nf ok
    by (simp add: ad)
qed

text \<open>
  Two runs. In the first, the send to connection 2 fails while connection 1 moves: the
  same MOVE sent again is broadcast with another text. In the second, the send to the
  moving connection itself fails during its second MOVE: the table keeps no entry.
\<close>

theorem resend_after_failed_send_counterexample:
  "loop_body (faulty [2]) 1 (Data ''MOVE,Bob,1,2'')
      \<lparr>clients = [1, 2], players = [(2, \<lparr>pname = ''Al'', px = 0, py = 0\<rparr>)]\<rparr> =
     (Continue, \<lparr>clients = [1], players = [(1, \<lparr>pname = ''Bob'', px = 1, py = 2\<rparr>)]\<rparr>,
      [Acquire, Release, Acquire, Release, Acquire,
       Sent 1 ''UPDATE;Al,0,0;Bob,1,2'', SendFailed 2 ''UPDATE;Al,0,0;Bob,1,2'', Close 2, Release]) \<and>
   loop_body (faulty []) 1 (Data ''MOVE,Bob,1,2'')
      \<lparr>clients = [1], players = [(1, \<lparr>pname = ''Bob'', px = 1, py = 2\<rparr>)]\<rparr> =
     (Continue, \<lparr>clients = [1], players = [(1, \<lparr>pname = ''Bob'', px = 1, py = 2\<rparr>)]\<rparr>,
      [Acquire, Release, Acquire, Release, Acquire, Sent 1 ''UPDATE;Bob,1,2'', Release]) \<and>
   loop_body (faulty []) 1 (Data ''MOVE,Bob,10,20'') \<lparr>clients = [1], players = []\<rparr> =
     (Continue, \<lparr>clients = [1], players = [(1, \<lparr>pname = ''Bob'', px = 10, py = 20\<rparr>)]\<rparr>,
      [Acquire, Release, Acquire, Release, Acquire, Sent 1 ''UPDATE;Bob,10,20'', Release]) \<and>
   loop_body (faulty [1]) 1 (Data ''MOVE,Bob,15,-5'')
      \<lparr>clients = [1], players = [(1, \<lparr>pname = ''Bob'', px = 10, py = 20\<rparr>)]\<rparr> =
     (Continue, \<lparr>clients = [], players = []\<rparr>,
      [Acquire, Release, Acquire, Release, Acquire,
       SendFailed 1 ''UPDATE;Bob,15,-5'', Close 1, Release])"
  by (simp add: loop_body_def Let_def broadcast_result dropped_def bcast_events_def faulty_def
        all_data_def dict_values_def fmt_player_def py_str_def str_nat.simps digit_char_def
        py_int_def int_space_def is_digit_def digit_val_def)




end
